theory Spec2Isabelle
  imports Complex_Main "HOL-Library.Word" "HOL-Library.Sublist"
begin

section \<open>JavaScript values as the XML parser hands them over\<close>

text \<open>
  A JavaScript string is a sequence of UTF-16 code units. The route handler only looks at
  code units (the regular expressions carry no \<open>u\<close> flag), so a string is a list of
  16-bit words. \<open>js\<close> writes an ASCII literal as such a list.
\<close>

type_synonym jschar = "16 word"
type_synonym jsstring = "jschar list"

definition js :: "string \<Rightarrow> jsstring" where
  "js s = map of_char s"

text \<open>
  The parsed tree is weakly typed: the interfaces \<open>ArxivEntry\<close>, \<open>ArxivAuthor\<close>,
  \<open>ArxivLinkAttribute\<close> and \<open>ArxivCategoryAttribute\<close> of the source are compile-time
  annotations only, and every access of the handler goes through a run-time check. The
  model therefore keeps the run-time values. An object is its list of own properties
  (the first binding of a key is the one that counts). A number is a rational or NaN: the
  handler asks a number for nothing but its type and its truthiness.
\<close>

datatype jsval =
    JUndefined
  | JNull
  | JBool bool
  | JNum rat
  | JNaN
  | JStr jsstring
  | JArr "jsval list"
  | JObj "(jsstring \<times> jsval) list"

text \<open>The \<open>typeof\<close> operator.\<close>

fun typeof :: "jsval \<Rightarrow> string" where
  "typeof JUndefined = ''undefined''"
| "typeof JNull = ''object''"
| "typeof (JBool b) = ''boolean''"
| "typeof (JNum n) = ''number''"
| "typeof JNaN = ''number''"
| "typeof (JStr s) = ''string''"
| "typeof (JArr xs) = ''object''"
| "typeof (JObj kvs) = ''object''"

text \<open>ToBoolean, as used by \<open>!x\<close>, \<open>x ? a : b\<close> and \<open>x && y\<close>.\<close>

fun truthy :: "jsval \<Rightarrow> bool" where
  "truthy JUndefined = False"
| "truthy JNull = False"
| "truthy (JBool b) = b"
| "truthy (JNum n) = (n \<noteq> 0)"
| "truthy JNaN = False"
| "truthy (JStr s) = (s \<noteq> [])"
| "truthy (JArr xs) = True"
| "truthy (JObj kvs) = True"

text \<open>
  Property read \<open>v.k\<close> / \<open>v[k]\<close> for the keys this handler reads (\<open>feed\<close>, \<open>entry\<close>,
  \<open>id\<close>, \<open>link\<close>, \<open>author\<close>, \<open>category\<close>, \<open>title\<close>, \<open>summary\<close>, \<open>published\<close>,
  \<open>updated\<close>, \<open>name\<close>, \<open>@_term\<close>, \<open>@_title\<close>, \<open>@_href\<close>). On a plain object it is the
  own property or \<open>undefined\<close>. The handler reads a property only of a value it has found
  truthy, and of a primitive or an array none of these keys resolves through the
  prototype before the entry has been rejected, so the read gives \<open>undefined\<close> there.
\<close>

fun get_prop :: "jsval \<Rightarrow> jsstring \<Rightarrow> jsval" where
  "get_prop (JObj kvs) k = (case map_of kvs k of Some v \<Rightarrow> v | None \<Rightarrow> JUndefined)"
| "get_prop v k = JUndefined"

text \<open>The \<open>in\<close> operator, \<open>k in v\<close>, for a value already known to be a non-null object.\<close>

fun has_prop :: "jsstring \<Rightarrow> jsval \<Rightarrow> bool" where
  "has_prop k (JObj kvs) = (map_of kvs k \<noteq> None)"
| "has_prop k v = False"

text \<open>
  \<open>Array.isArray(x) ? x : (x ? [x] : [])\<close>: the expression the source writes out for
  \<open>link\<close> (line 92), \<open>author\<close> (line 108), \<open>category\<close> (line 114) and \<open>entry\<close> (line 186).
\<close>

fun as_array :: "jsval \<Rightarrow> jsval list" where
  "as_array (JArr xs) = xs"
| "as_array v = (if truthy v then [v] else [])"

section \<open>String operations\<close>

text \<open>
  The code units that \<open>String.prototype.trim\<close> strips and that \<open>\s\<close> matches: WhiteSpace
  and LineTerminator of ECMAScript.
\<close>

definition is_ws :: "jschar \<Rightarrow> bool" where
  "is_ws c \<longleftrightarrow>
     c = 0x09 \<or> c = 0x0A \<or> c = 0x0B \<or> c = 0x0C \<or> c = 0x0D \<or> c = 0x20 \<or> c = 0xA0 \<or>
     c = 0x1680 \<or> (0x2000 \<le> c \<and> c \<le> 0x200A) \<or> c = 0x2028 \<or> c = 0x2029 \<or>
     c = 0x202F \<or> c = 0x205F \<or> c = 0x3000 \<or> c = 0xFEFF"

definition trim :: "jsstring \<Rightarrow> jsstring" where
  "trim s = rev (dropWhile is_ws (rev (dropWhile is_ws s)))"

text \<open>
  \<open>s.replace(/\s\s+/g, ' ')\<close>: scanning from the left, a position where two white-space
  code units follow each other starts a match that takes the whole run and is replaced by
  one space; any other code unit is copied.
\<close>

function replace_ws_runs :: "jsstring \<Rightarrow> jsstring" where
  "replace_ws_runs [] = []"
| "replace_ws_runs [c] = [c]"
| "replace_ws_runs (c # d # cs) =
     (if is_ws c \<and> is_ws d then 0x20 # replace_ws_runs (dropWhile is_ws cs)
      else c # replace_ws_runs (d # cs))"
  by pat_completeness auto
termination
  by (relation "measure length") (simp_all add: less_Suc_eq_le le_SucI length_dropWhile_le)

text \<open>\<open>s.includes(pat)\<close>.\<close>

fun includes_str :: "jsstring \<Rightarrow> jsstring \<Rightarrow> bool" where
  "includes_str [] pat = (pat = [])"
| "includes_str (c # cs) pat = (prefix pat (c # cs) \<or> includes_str cs pat)"

text \<open>\<open>s.replace(pat, rep)\<close> with a string pattern: the first occurrence only.\<close>

fun replace_first :: "jsstring \<Rightarrow> jsstring \<Rightarrow> jsstring \<Rightarrow> jsstring" where
  "replace_first [] pat rep = (if pat = [] then rep else [])"
| "replace_first (c # cs) pat rep =
     (if prefix pat (c # cs) then rep @ drop (length pat) (c # cs)
      else c # replace_first cs pat rep)"

text \<open>
  \<open>idUrl.match(/\/abs\/([^v]+)/)?.[1]\<close>: the leftmost position at which \<open>/abs/\<close> stands
  and is followed by a code unit other than \<open>v\<close>; the group is the longest run of such
  code units from there. \<open>None\<close> is the \<open>undefined\<close> of a failed match.
\<close>

fun match_abs :: "jsstring \<Rightarrow> jsstring option" where
  "match_abs [] = None"
| "match_abs (c # cs) =
     (if prefix (js ''/abs/'') (c # cs) \<and> takeWhile (\<lambda>x. x \<noteq> 0x76) (drop 5 (c # cs)) \<noteq> []
      then Some (takeWhile (\<lambda>x. x \<noteq> 0x76) (drop 5 (c # cs)))
      else match_abs cs)"

section \<open>The entry normalizer\<close>

record PaperSummary =
  id' :: jsstring
  title :: jsstring
  summary :: jsstring
  authors :: "jsstring list"
  published :: jsstring
  updated :: jsstring
  pdfLink :: jsstring
  categories :: "jsstring list"

text \<open>The predicate of \<open>entryLinks.find\<close> (lines 94 and 95).\<close>

definition is_pdf_link :: "jsval \<Rightarrow> bool" where
  "is_pdf_link link \<longleftrightarrow>
     link \<noteq> JNull \<and> typeof link = ''object'' \<and> has_prop (js ''@_title'') link \<and>
     get_prop link (js ''@_title'') = JStr (js ''pdf'') \<and>
     typeof (get_prop link (js ''@_href'')) = ''string''"

text \<open>The function mapped over \<open>authorList\<close> (line 110); \<open>None\<close> is its \<open>null\<close>.\<close>

definition author_name :: "jsval \<Rightarrow> jsstring option" where
  "author_name auth =
     (if truthy auth then
        (case get_prop auth (js ''name'') of JStr n \<Rightarrow> Some (trim n) | _ \<Rightarrow> None)
      else None)"

text \<open>The function mapped over \<open>categoryList\<close> (line 116).\<close>

definition category_term :: "jsval \<Rightarrow> jsstring option" where
  "category_term cat =
     (if truthy cat then
        (case get_prop cat (js ''@_term'') of JStr t \<Rightarrow> Some t | _ \<Rightarrow> None)
      else None)"

text \<open>The filter of lines 111 and 117: \<open>x !== null && x.length > 0\<close>.\<close>

definition non_null_non_empty :: "jsstring option list \<Rightarrow> jsstring list" where
  "non_null_non_empty xs =
     map the (filter (\<lambda>x. x \<noteq> None \<and> length (the x) > 0) xs)"

text \<open>
  Lines 119 to 123: a field that is a string, passed through \<open>f\<close>, or else the default.
\<close>

definition string_or :: "jsval \<Rightarrow> (jsstring \<Rightarrow> jsstring) \<Rightarrow> jsstring \<Rightarrow> jsstring" where
  "string_or v f dflt = (case v of JStr s \<Rightarrow> f s | _ \<Rightarrow> dflt)"

text \<open>The two placeholders, \<open>title\<close> (six code units) and \<open>summary\<close> (four code units).\<close>

definition no_title :: jsstring where
  "no_title = [0x30BF, 0x30A4, 0x30C8, 0x30EB, 0x306A, 0x3057]"

definition no_summary :: jsstring where
  "no_summary = [0x8981, 0x7D04, 0x306A, 0x3057]"

text \<open>
  \<open>transformEntryToPaperSummary\<close> (lines 83 to 135). \<open>None\<close> is the \<open>null\<close> it returns for a
  rejected entry. The \<open>console.warn\<close> calls do not change the result and are left out.
\<close>

definition transformEntryToPaperSummary :: "jsval \<Rightarrow> PaperSummary option" where
  "transformEntryToPaperSummary entryItem =
     (if \<not> truthy entryItem then None
      else
        let idUrl = (case get_prop entryItem (js ''id'') of JStr s \<Rightarrow> Some s | _ \<Rightarrow> None);
            arxivId = (case idUrl of
                         Some s \<Rightarrow> if s \<noteq> [] then match_abs s else None
                       | None \<Rightarrow> None)
        in
          if arxivId = None \<or> arxivId = Some [] then None
          else
            let entryLinks = as_array (get_prop entryItem (js ''link''));
                pdfEntry = find is_pdf_link entryLinks;
                pdfLink0 = (case pdfEntry of
                              Some link \<Rightarrow>
                                (case get_prop link (js ''@_href'') of JStr h \<Rightarrow> h | _ \<Rightarrow> [])
                            | None \<Rightarrow> []);
                pdfLink1 =
                  (if pdfLink0 = [] \<and> (case idUrl of Some s \<Rightarrow> includes_str s (js ''/abs/'') | None \<Rightarrow> False)
                   then
                     let potentialPdfLink =
                           replace_first (the idUrl) (js ''/abs/'') (js ''/pdf/'') @ js ''.pdf''
                     in if prefix (js ''http://'') potentialPdfLink \<or>
                           prefix (js ''https://'') potentialPdfLink
                        then potentialPdfLink else pdfLink0
                   else pdfLink0);
                authorList = as_array (get_prop entryItem (js ''author''));
                categoryList = as_array (get_prop entryItem (js ''category''))
            in
              Some \<lparr> id' = the arxivId,
                     title = string_or (get_prop entryItem (js ''title''))
                               (\<lambda>s. replace_ws_runs (trim s)) no_title,
                     summary = string_or (get_prop entryItem (js ''summary''))
                                 (\<lambda>s. replace_ws_runs (trim s)) no_summary,
                     authors = non_null_non_empty (map author_name authorList),
                     published = string_or (get_prop entryItem (js ''published'')) (\<lambda>s. s) [],
                     updated = string_or (get_prop entryItem (js ''updated'')) (\<lambda>s. s) [],
                     pdfLink = pdfLink1,
                     categories = non_null_non_empty (map category_term categoryList) \<rparr>)"

section \<open>The feed-shape guard and the collection normalizer\<close>

text \<open>\<open>isArxivRawData\<close> (lines 71 to 77).\<close>

definition isArxivRawData :: "jsval \<Rightarrow> bool" where
  "isArxivRawData data = (if typeof data \<noteq> ''object'' \<or> data = JNull then False else True)"

text \<open>
  Lines 186 to 196 of \<open>GET\<close>: the \<open>entry\<close> field made a sequence, each element normalized,
  the rejections filtered out.
\<close>

definition normalize_entries :: "jsval \<Rightarrow> PaperSummary list" where
  "normalize_entries entriesRaw =
     (let entriesArray = as_array entriesRaw
      in if length entriesArray > 0
         then map the (filter (\<lambda>paper. paper \<noteq> None)
                (map transformEntryToPaperSummary entriesArray))
         else [])"

text \<open>
  What \<open>GET\<close> answers once the body has been parsed (lines 180 to 199): the papers with
  the default status 200, or the error message with status 500.
\<close>

datatype response =
    Json_papers "PaperSummary list"
  | Json_error string nat

definition respond_parsed :: "jsval \<Rightarrow> response" where
  "respond_parsed parsedData =
     (if \<not> isArxivRawData parsedData \<or> \<not> truthy (get_prop parsedData (js ''feed''))
      then Json_error ''Failed to parse arXiv data. Unexpected format received.'' 500
      else Json_papers (normalize_entries (get_prop (get_prop parsedData (js ''feed'')) (js ''entry''))))"

section \<open>Reference definitions for the stated properties\<close>

text \<open>
  The words of the specification for the title and the summary, to be compared with
  \<open>replace_ws_runs\<close>: the string is cut into its maximal runs, alternately of white space
  and of other code units, and every white-space run of two or more code units becomes a
  single space.
\<close>

function ws_runs :: "jsstring \<Rightarrow> jsstring list" where
  "ws_runs [] = []"
| "ws_runs (c # cs) =
     (if is_ws c then (c # takeWhile is_ws cs) # ws_runs (dropWhile is_ws cs)
      else (c # takeWhile (\<lambda>x. \<not> is_ws x) cs) # ws_runs (dropWhile (\<lambda>x. \<not> is_ws x) cs))"
  by pat_completeness auto
termination
  by (relation "measure length") (simp_all add: less_Suc_eq_le length_dropWhile_le)

definition collapse_runs_spec :: "jsstring \<Rightarrow> jsstring" where
  "collapse_runs_spec s =
     concat (map (\<lambda>r. if is_ws (hd r) \<and> length r \<ge> 2 then [0x20] else r) (ws_runs s))"

text \<open>A string with no leading and no trailing white space.\<close>

definition no_outer_ws :: "jsstring \<Rightarrow> bool" where
  "no_outer_ws t \<longleftrightarrow> t = [] \<or> (\<not> is_ws (hd t) \<and> \<not> is_ws (last t))"

section \<open>Facts about the string operations\<close>

lemma abs_pat: "js ''/abs/'' = [0x2F, 0x61, 0x62, 0x73, 0x2F]"
  by (simp add: js_def)

lemma includes_str_sublist: "includes_str s pat = sublist pat s"
  by (induction s) (auto simp: sublist_Cons_right)

lemma prefix_append_short:
  assumes "prefix xs (ys @ zs)" and "length xs \<le> length ys"
  shows "prefix xs ys"
  using assms by (auto simp: prefix_append)

lemma takeWhile_until:
  assumes "\<forall>x\<in>set xs. P x" and "ys = [] \<or> \<not> P (hd ys)"
  shows "takeWhile P (xs @ ys) = xs"
  using assms by (cases ys) (auto simp: takeWhile_append2)

lemma match_abs_SomeD:
  assumes "match_abs s = Some a"
  shows "a \<noteq> [] \<and> 0x76 \<notin> set a \<and>
         (\<exists>pre rest. s = pre @ js ''/abs/'' @ a @ rest \<and> (rest = [] \<or> hd rest = 0x76))"
  using assms
proof (induction s)
  case Nil
  then show ?case by simp
next
  case (Cons c cs)
  let ?P = "\<lambda>x::jschar. x \<noteq> 0x76"
  show ?case
  proof (cases "prefix (js ''/abs/'') (c # cs) \<and> takeWhile ?P (drop 5 (c # cs)) \<noteq> []")
    case True
    then obtain r where r: "c # cs = js ''/abs/'' @ r"
      by (auto simp: prefix_def)
    then have dr: "drop 5 (c # cs) = r"
      by (simp add: abs_pat)
    from True Cons.prems have a: "a = takeWhile ?P r" and ne: "a \<noteq> []"
      using dr by auto
    have split: "r = a @ dropWhile ?P r"
      by (simp add: a)
    have tail: "dropWhile ?P r = [] \<or> hd (dropWhile ?P r) = 0x76"
      using hd_dropWhile [of ?P r] by auto
    have nov: "0x76 \<notin> set a"
      using set_takeWhileD [of "0x76" ?P r] by (auto simp: a)
    have "c # cs = [] @ js ''/abs/'' @ a @ dropWhile ?P r"
      using r split by simp
    with ne nov tail show ?thesis by blast
  next
    case False
    with Cons.prems have "match_abs cs = Some a"
      by (simp split: if_splits)
    from Cons.IH [OF this] obtain pre rest where
      "a \<noteq> []" "0x76 \<notin> set a" "cs = pre @ js ''/abs/'' @ a @ rest" "rest = [] \<or> hd rest = 0x76"
      by blast
    then have "c # cs = (c # pre) @ js ''/abs/'' @ a @ rest"
      by simp
    with \<open>a \<noteq> []\<close> \<open>0x76 \<notin> set a\<close> \<open>rest = [] \<or> hd rest = 0x76\<close> show ?thesis by blast
  qed
qed

lemma match_abs_exists:
  "c \<noteq> 0x76 \<Longrightarrow> match_abs (pre @ js ''/abs/'' @ c # rest) \<noteq> None"
  by (induction pre) (auto simp: abs_pat)

lemma match_abs_None_iff:
  "match_abs s = None \<longleftrightarrow> \<not> (\<exists>pre c rest. s = pre @ js ''/abs/'' @ c # rest \<and> c \<noteq> 0x76)"
proof
  assume "match_abs s = None"
  then show "\<not> (\<exists>pre c rest. s = pre @ js ''/abs/'' @ c # rest \<and> c \<noteq> 0x76)"
    using match_abs_exists by blast
next
  assume no: "\<not> (\<exists>pre c rest. s = pre @ js ''/abs/'' @ c # rest \<and> c \<noteq> 0x76)"
  show "match_abs s = None"
  proof (rule ccontr)
    assume "match_abs s \<noteq> None"
    then obtain a where "match_abs s = Some a" by blast
    from match_abs_SomeD [OF this] obtain pre rest where
      a: "a \<noteq> []" "0x76 \<notin> set a" and s: "s = pre @ js ''/abs/'' @ a @ rest"
      by blast
    from a obtain c a' where "a = c # a'" "c \<noteq> 0x76"
      by (cases a) auto
    with s have "s = pre @ js ''/abs/'' @ c # (a' @ rest)" by simp
    with no \<open>c \<noteq> 0x76\<close> show False by blast
  qed
qed

lemma match_abs_first:
  assumes "\<not> sublist (js ''/abs/'') (pre @ js ''/abs'')" and "ID \<noteq> []" and "0x76 \<notin> set ID"
    and "ver = [] \<or> hd ver = 0x76"
  shows "match_abs (pre @ js ''/abs/'' @ ID @ ver) = Some ID"
  using assms(1)
proof (induction pre)
  case Nil
  have "takeWhile (\<lambda>x. x \<noteq> 0x76) (ID @ ver) = ID"
    using assms(3,4) by (intro takeWhile_until) auto
  with assms(2) show ?case by (simp add: abs_pat)
next
  case (Cons p ps)
  have "\<not> prefix (js ''/abs/'') ((p # ps) @ js ''/abs'')"
    using Cons.prems by (auto simp: sublist_Cons_right)
  moreover have "(p # ps) @ js ''/abs/'' @ ID @ ver = ((p # ps) @ js ''/abs'') @ (js ''/'' @ ID @ ver)"
    by (simp add: js_def)
  moreover have "length (js ''/abs/'') \<le> length ((p # ps) @ js ''/abs'')"
    by (simp add: js_def)
  ultimately have np: "\<not> prefix (js ''/abs/'') ((p # ps) @ js ''/abs/'' @ ID @ ver)"
    using prefix_append_short by metis
  have "\<not> sublist (js ''/abs/'') (ps @ js ''/abs'')"
    using Cons.prems by (auto simp: sublist_Cons_right)
  from Cons.IH [OF this] np show ?case by simp
qed

lemma get_prop_JStr_truthy: "get_prop e k = JStr s \<Longrightarrow> truthy e"
  by (cases e) auto

lemma transform_None_iff:
  "transformEntryToPaperSummary e = None \<longleftrightarrow>
     (\<forall>s. get_prop e (js ''id'') = JStr s \<longrightarrow> match_abs s = None)"
proof (cases "\<exists>s. get_prop e (js ''id'') = JStr s")
  case True
  then obtain s where s: "get_prop e (js ''id'') = JStr s" by blast
  then have t: "truthy e" by (rule get_prop_JStr_truthy)
  show ?thesis
  proof (cases "match_abs s")
    case None
    then show ?thesis using s t by (simp add: transformEntryToPaperSummary_def)
  next
    case (Some a)
    then have "a \<noteq> []" using match_abs_SomeD by blast
    moreover have "s \<noteq> []" using Some by auto
    ultimately show ?thesis using s t Some
      by (simp add: transformEntryToPaperSummary_def Let_def)
  qed
next
  case False
  then show ?thesis
    by (cases "get_prop e (js ''id'')") (auto simp: transformEntryToPaperSummary_def)
qed

lemma normalize_entries_JArr:
  "normalize_entries (JArr zs) = map the (filter (\<lambda>paper. paper \<noteq> None) (map transformEntryToPaperSummary zs))"
  by (simp add: normalize_entries_def Let_def)

lemma normalize_entries_single:
  "transformEntryToPaperSummary e = None \<Longrightarrow> \<forall>zs. e \<noteq> JArr zs \<Longrightarrow> normalize_entries e = []"
  by (cases e) (auto simp: normalize_entries_def Let_def)

section \<open>Identifier extraction and rejection\<close>

text \<open>
  C1, as amended. An entry whose \<open>id\<close> is a string \<open>pre/abs/IDver\<close>, where \<open>ID\<close> is not
  empty and holds no letter \<open>v\<close> (code unit 0x76), \<open>ver\<close> is empty or a version suffix
  \<open>vN\<close>, and the \<open>/abs/\<close> in front of \<open>ID\<close> is the first one of the string, is accepted, and
  the \<open>id\<close> of its summary is exactly \<open>ID\<close>.
\<close>

theorem extract_id_version_free:
  assumes "get_prop e (js ''id'') = JStr (pre @ js ''/abs/'' @ ID @ ver)"
    and "ver = [] \<or> (\<exists>N. ver = js ''v'' @ N)"
    and "ID \<noteq> []" and "0x76 \<notin> set ID"
    and "\<not> sublist (js ''/abs/'') (pre @ js ''/abs'')"
  shows "\<exists>p. transformEntryToPaperSummary e = Some p \<and> id' p = ID"
proof -
  let ?s = "pre @ js ''/abs/'' @ ID @ ver"
  have "ver = [] \<or> hd ver = 0x76"
    using assms(2) by (auto simp: js_def)
  with assms have m: "match_abs ?s = Some ID"
    by (intro match_abs_first) auto
  have "truthy e"
    using assms(1) by (rule get_prop_JStr_truthy)
  moreover have "?s \<noteq> []"
    by (simp add: js_def)
  ultimately show ?thesis
    using assms(1,3) m by (simp add: transformEntryToPaperSummary_def Let_def)
qed

theorem extract_id_version_free_witness:
  "\<not> sublist (js ''/abs/'') (js ''http://arxiv.org'' @ js ''/abs'') \<and>
   (\<exists>p. transformEntryToPaperSummary
          (JObj [(js ''id'', JStr (js ''http://arxiv.org'' @ js ''/abs/'' @ js ''2101.00001'' @ js ''v12''))]) = Some p \<and>
        id' p = js ''2101.00001'')"
proof -
  have h: "\<not> sublist (js ''/abs/'') (js ''http://arxiv.org'' @ js ''/abs'')"
    by (simp add: js_def sublist_code)
  have v: "js ''v12'' = [] \<or> (\<exists>N. js ''v12'' = js ''v'' @ N)"
    by (simp add: js_def)
  have g: "get_prop (JObj [(js ''id'', JStr (js ''http://arxiv.org'' @ js ''/abs/'' @ js ''2101.00001'' @ js ''v12''))]) (js ''id'')
      = JStr (js ''http://arxiv.org'' @ js ''/abs/'' @ js ''2101.00001'' @ js ''v12'')"
    by simp
  have n: "js ''2101.00001'' \<noteq> []" "0x76 \<notin> set (js ''2101.00001'')"
    by (simp_all add: js_def)
  from extract_id_version_free [OF g v n h] h show ?thesis by blast
qed

text \<open>
  C1 as stated fails on an identifier of the old arXiv scheme that holds a \<open>v\<close> of its
  own: for the id \<open>http://arxiv.org/abs/solv-int/9901001v1\<close>, of the form \<open>.../abs/IDvN\<close>
  with \<open>ID = solv-int/9901001\<close> and \<open>N = 1\<close>, the summary's id is \<open>sol\<close>. It also fails when
  an earlier \<open>/abs/\<close> stands in the part before \<open>ID\<close>: the match starts at the first one.
\<close>

theorem extract_id_counterexample:
  "map_option id' (transformEntryToPaperSummary
      (JObj [(js ''id'', JStr (js ''http://arxiv.org'' @ js ''/abs/'' @ js ''solv-int/9901001'' @ js ''v1''))]))
     = Some (js ''sol'') \<and>
   js ''sol'' \<noteq> js ''solv-int/9901001'' \<and>
   map_option id' (transformEntryToPaperSummary
      (JObj [(js ''id'', JStr (js ''http://arxiv.org/abs/math'' @ js ''/abs/'' @ js ''0211159'' @ js ''v1''))]))
     = Some (js ''math/abs/0211159'') \<and>
   js ''math/abs/0211159'' \<noteq> js ''0211159''"
  by (simp add: transformEntryToPaperSummary_def js_def Let_def)

text \<open>
  C2. An entry is rejected exactly when its \<open>id\<close> is absent or not a string, or is a string
  that the pattern does not match: one in which no \<open>/abs/\<close> is followed by a code unit
  other than \<open>v\<close> (0x76). In particular an entry without a string \<open>id\<close>, or whose id has
  no \<open>/abs/\<close> followed by at least one code unit, is rejected. An entry that is \<open>null\<close> or
  another falsy value has no \<open>id\<close> and is rejected with the first case. A rejected entry
  leaves no record in the output of the collection normalizer, and the records of the
  entries around it are what they are without it.
\<close>

theorem reject_iff_id_unusable:
  "(transformEntryToPaperSummary e = None \<longleftrightarrow>
      (\<forall>s. get_prop e (js ''id'') \<noteq> JStr s) \<or>
      (\<exists>s. get_prop e (js ''id'') = JStr s \<and>
           \<not> (\<exists>pre c rest. s = pre @ js ''/abs/'' @ c # rest \<and> c \<noteq> 0x76))) \<and>
   ((\<forall>s. get_prop e (js ''id'') \<noteq> JStr s) \<or>
    (\<exists>s. get_prop e (js ''id'') = JStr s \<and> \<not> (\<exists>pre c rest. s = pre @ js ''/abs/'' @ c # rest))
      \<longrightarrow> transformEntryToPaperSummary e = None) \<and>
   (transformEntryToPaperSummary e = None \<longrightarrow>
      normalize_entries (JArr (xs @ e # ys)) = normalize_entries (JArr xs) @ normalize_entries (JArr ys) \<and>
      ((\<forall>zs. e \<noteq> JArr zs) \<longrightarrow> normalize_entries e = []))"
proof -
  have iff: "transformEntryToPaperSummary e = None \<longleftrightarrow>
      (\<forall>s. get_prop e (js ''id'') \<noteq> JStr s) \<or>
      (\<exists>s. get_prop e (js ''id'') = JStr s \<and>
           \<not> (\<exists>pre c rest. s = pre @ js ''/abs/'' @ c # rest \<and> c \<noteq> 0x76))"
  proof (cases "\<exists>s. get_prop e (js ''id'') = JStr s")
    case True
    then obtain s where "get_prop e (js ''id'') = JStr s" by blast
    then show ?thesis
      by (simp add: transform_None_iff match_abs_None_iff)
  next
    case False
    then show ?thesis
      by (simp add: transform_None_iff)
  qed
  have suff: "(\<forall>s. get_prop e (js ''id'') \<noteq> JStr s) \<or>
    (\<exists>s. get_prop e (js ''id'') = JStr s \<and> \<not> (\<exists>pre c rest. s = pre @ js ''/abs/'' @ c # rest))
      \<longrightarrow> transformEntryToPaperSummary e = None"
    unfolding iff by blast
  have coll: "transformEntryToPaperSummary e = None \<longrightarrow>
      normalize_entries (JArr (xs @ e # ys)) = normalize_entries (JArr xs) @ normalize_entries (JArr ys) \<and>
      ((\<forall>zs. e \<noteq> JArr zs) \<longrightarrow> normalize_entries e = [])"
    by (simp add: normalize_entries_JArr normalize_entries_single)
  from iff suff coll show ?thesis by blast
qed

lemma no_sublist_no_split:
  "\<not> sublist pat s \<Longrightarrow> \<not> (\<exists>pre c rest. s = pre @ pat @ c # rest)"
  by (auto simp: sublist_def)

theorem reject_iff_id_unusable_witness:
  "\<not> (\<exists>pre c rest. js ''http://arxiv.org/list/cs.AI'' = pre @ js ''/abs/'' @ c # rest) \<and>
   transformEntryToPaperSummary (JObj [(js ''id'', JStr (js ''http://arxiv.org/list/cs.AI''))]) = None \<and>
   normalize_entries (JArr ([JObj [(js ''id'', JStr (js ''http://arxiv.org/abs/2101.00001v1''))]] @
       JObj [(js ''id'', JStr (js ''http://arxiv.org/list/cs.AI''))] #
       [JObj [(js ''id'', JStr (js ''http://arxiv.org/abs/2101.00002v3''))]])) =
     normalize_entries (JArr [JObj [(js ''id'', JStr (js ''http://arxiv.org/abs/2101.00001v1''))]]) @
     normalize_entries (JArr [JObj [(js ''id'', JStr (js ''http://arxiv.org/abs/2101.00002v3''))]]) \<and>
   map id' (normalize_entries (JArr [JObj [(js ''id'', JStr (js ''http://arxiv.org/abs/2101.00001v1''))],
       JObj [(js ''id'', JStr (js ''http://arxiv.org/list/cs.AI''))],
       JObj [(js ''id'', JStr (js ''http://arxiv.org/abs/2101.00002v3''))]])) =
     [js ''2101.00001'', js ''2101.00002'']"
proof -
  let ?bad = "JObj [(js ''id'', JStr (js ''http://arxiv.org/list/cs.AI''))]"
  have h: "\<not> (\<exists>pre c rest. js ''http://arxiv.org/list/cs.AI'' = pre @ js ''/abs/'' @ c # rest)"
    by (rule no_sublist_no_split) (simp add: js_def sublist_code)
  have g: "get_prop ?bad (js ''id'') = JStr (js ''http://arxiv.org/list/cs.AI'')"
    by simp
  note t = reject_iff_id_unusable [of ?bad
      "[JObj [(js ''id'', JStr (js ''http://arxiv.org/abs/2101.00001v1''))]]"
      "[JObj [(js ''id'', JStr (js ''http://arxiv.org/abs/2101.00002v3''))]]"]
  from t g h have r: "transformEntryToPaperSummary ?bad = None"
    by blast
  with t have a: "normalize_entries (JArr ([JObj [(js ''id'', JStr (js ''http://arxiv.org/abs/2101.00001v1''))]] @
       ?bad # [JObj [(js ''id'', JStr (js ''http://arxiv.org/abs/2101.00002v3''))]])) =
     normalize_entries (JArr [JObj [(js ''id'', JStr (js ''http://arxiv.org/abs/2101.00001v1''))]]) @
     normalize_entries (JArr [JObj [(js ''id'', JStr (js ''http://arxiv.org/abs/2101.00002v3''))]])"
    by blast
  have b: "map id' (normalize_entries (JArr [JObj [(js ''id'', JStr (js ''http://arxiv.org/abs/2101.00001v1''))],
       ?bad, JObj [(js ''id'', JStr (js ''http://arxiv.org/abs/2101.00002v3''))]])) =
     [js ''2101.00001'', js ''2101.00002'']"
    by (simp add: normalize_entries_JArr transformEntryToPaperSummary_def js_def Let_def)
  from h r a b show ?thesis by blast
qed

section \<open>Facts about the entry normalizer\<close>

lemma typeof_string_iff: "typeof v = ''string'' \<longleftrightarrow> (\<exists>s. v = JStr s)"
  by (cases v) auto

lemma is_pdf_link_iff:
  "is_pdf_link l \<longleftrightarrow>
     get_prop l (js ''@_title'') = JStr (js ''pdf'') \<and> (\<exists>h. get_prop l (js ''@_href'') = JStr h)"
  by (cases l) (auto simp: is_pdf_link_def typeof_string_iff split: option.splits)


lemma find_SomeD:
  "find P xs = Some l \<Longrightarrow> \<exists>before after. xs = before @ l # after \<and> P l \<and> (\<forall>b\<in>set before. \<not> P b)"
proof (induction xs)
  case Nil
  then show ?case by simp
next
  case (Cons x xs)
  show ?case
  proof (cases "P x")
    case True
    with Cons.prems have "x = l" by simp
    with True have "x # xs = [] @ l # xs \<and> P l \<and> (\<forall>b\<in>set []. \<not> P b)" by simp
    then show ?thesis by blast
  next
    case False
    with Cons.prems have "find P xs = Some l" by simp
    from Cons.IH [OF this] obtain before after where
      "xs = before @ l # after" "P l" "\<forall>b\<in>set before. \<not> P b" by blast
    with False have "x # xs = (x # before) @ l # after \<and> P l \<and> (\<forall>b\<in>set (x # before). \<not> P b)"
      by simp
    then show ?thesis by blast
  qed
qed

lemma no_early_abs:
  assumes "\<not> sublist (js ''/abs/'') ((p # ps) @ js ''/abs'')"
  shows "\<not> prefix (js ''/abs/'') ((p # ps) @ js ''/abs/'' @ rest)"
proof -
  have "\<not> prefix (js ''/abs/'') ((p # ps) @ js ''/abs'')"
    using assms by (auto simp: sublist_Cons_right)
  moreover have "(p # ps) @ js ''/abs/'' @ rest = ((p # ps) @ js ''/abs'') @ (js ''/'' @ rest)"
    by (simp add: js_def)
  moreover have "length (js ''/abs/'') \<le> length ((p # ps) @ js ''/abs'')"
    by (simp add: js_def)
  ultimately show ?thesis
    using prefix_append_short by metis
qed

lemma replace_first_abs:
  assumes "\<not> sublist (js ''/abs/'') (pre @ js ''/abs'')"
  shows "replace_first (pre @ js ''/abs/'' @ rest) (js ''/abs/'') rep = pre @ rep @ rest"
  using assms
proof (induction pre)
  case Nil
  show ?case by (simp add: abs_pat)
next
  case (Cons p ps)
  have "\<not> sublist (js ''/abs/'') (ps @ js ''/abs'')"
    using Cons.prems by (auto simp: sublist_Cons_right)
  from Cons.IH [OF this] no_early_abs [OF Cons.prems, of rest] show ?case by simp
qed

lemma match_abs_includes: "match_abs s = Some a \<Longrightarrow> includes_str s (js ''/abs/'')"
  using match_abs_SomeD [of s a] by (auto simp: includes_str_sublist sublist_def)

lemma transform_SomeD:
  assumes "transformEntryToPaperSummary e = Some p"
  shows "\<exists>s h0. get_prop e (js ''id'') = JStr s \<and> match_abs s = Some (id' p) \<and>
    title p = string_or (get_prop e (js ''title'')) (\<lambda>s. replace_ws_runs (trim s)) no_title \<and>
    summary p = string_or (get_prop e (js ''summary'')) (\<lambda>s. replace_ws_runs (trim s)) no_summary \<and>
    authors p = non_null_non_empty (map author_name (as_array (get_prop e (js ''author'')))) \<and>
    categories p = non_null_non_empty (map category_term (as_array (get_prop e (js ''category'')))) \<and>
    published p = string_or (get_prop e (js ''published'')) (\<lambda>s. s) [] \<and>
    updated p = string_or (get_prop e (js ''updated'')) (\<lambda>s. s) [] \<and>
    h0 = (case find is_pdf_link (as_array (get_prop e (js ''link''))) of
            Some l \<Rightarrow> (case get_prop l (js ''@_href'') of JStr h \<Rightarrow> h | _ \<Rightarrow> [])
          | None \<Rightarrow> []) \<and>
    pdfLink p =
      (if h0 = [] then
         (if prefix (js ''http://'') (replace_first s (js ''/abs/'') (js ''/pdf/'') @ js ''.pdf'') \<or>
             prefix (js ''https://'') (replace_first s (js ''/abs/'') (js ''/pdf/'') @ js ''.pdf'')
          then replace_first s (js ''/abs/'') (js ''/pdf/'') @ js ''.pdf'' else [])
       else h0)"
proof -
  from assms have "transformEntryToPaperSummary e \<noteq> None" by simp
  then obtain s a where s: "get_prop e (js ''id'') = JStr s" and m: "match_abs s = Some a"
    unfolding transform_None_iff by auto
  have t: "truthy e" using s by (rule get_prop_JStr_truthy)
  have ne: "s \<noteq> []" using m by auto
  have a: "a \<noteq> []" using match_abs_SomeD [OF m] by blast
  have inc: "includes_str s (js ''/abs/'')" using m by (rule match_abs_includes)
  show ?thesis
    using assms s m t ne a inc
    by (auto simp: transformEntryToPaperSummary_def Let_def)
qed

section \<open>PDF link resolution\<close>




text \<open>
  C4. For an accepted entry in which no link has the title \<open>pdf\<close> together with a non-empty
  string href, and whose id is \<open>pre/abs/rest\<close> with this \<open>/abs/\<close> the first of the string,
  the candidate is \<open>pre/pdf/rest.pdf\<close>; \<open>pdfLink\<close> is the candidate when it begins with
  \<open>http://\<close> or \<open>https://\<close> and the empty string otherwise. For the id
  \<open>http://example.org/abs/1234.5678\<close> it is \<open>http://example.org/pdf/1234.5678.pdf\<close>.
\<close>

theorem pdf_link_fallback:
  assumes "transformEntryToPaperSummary e = Some p"
    and "get_prop e (js ''id'') = JStr (pre @ js ''/abs/'' @ rest)"
    and "\<not> sublist (js ''/abs/'') (pre @ js ''/abs'')"
    and "\<forall>l\<in>set (as_array (get_prop e (js ''link''))).
           \<not> (get_prop l (js ''@_title'') = JStr (js ''pdf'') \<and>
              (\<exists>h. h \<noteq> [] \<and> get_prop l (js ''@_href'') = JStr h))"
  shows "pdfLink p =
           (if prefix (js ''http://'') (pre @ js ''/pdf/'' @ rest @ js ''.pdf'') \<or>
               prefix (js ''https://'') (pre @ js ''/pdf/'' @ rest @ js ''.pdf'')
            then pre @ js ''/pdf/'' @ rest @ js ''.pdf'' else []) \<and>
         (pre = js ''http://example.org'' \<and> rest = js ''1234.5678'' \<longrightarrow>
            pdfLink p = js ''http://example.org/pdf/1234.5678.pdf'')"
proof -
  let ?links = "as_array (get_prop e (js ''link''))"
  have r: "replace_first (pre @ js ''/abs/'' @ rest) (js ''/abs/'') (js ''/pdf/'') = pre @ js ''/pdf/'' @ rest"
    using assms(3) by (rule replace_first_abs)
  have f: "get_prop l (js ''@_href'') = JStr []" if "find is_pdf_link ?links = Some l" for l
  proof -
    from find_SomeD [OF that] have l: "l \<in> set ?links" and "is_pdf_link l" by auto
    then obtain h where t: "get_prop l (js ''@_title'') = JStr (js ''pdf'')"
      and h: "get_prop l (js ''@_href'') = JStr h"
      unfolding is_pdf_link_iff by blast
    from assms(4) l t h have "h = []" by blast
    with h show ?thesis by simp
  qed
  have gen: "pdfLink p =
           (if prefix (js ''http://'') (pre @ js ''/pdf/'' @ rest @ js ''.pdf'') \<or>
               prefix (js ''https://'') (pre @ js ''/pdf/'' @ rest @ js ''.pdf'')
            then pre @ js ''/pdf/'' @ rest @ js ''.pdf'' else [])"
  proof (cases "find is_pdf_link ?links")
    case None
    with transform_SomeD [OF assms(1)] assms(2) r show ?thesis by auto
  next
    case (Some l)
    with transform_SomeD [OF assms(1)] assms(2) r f [OF Some] show ?thesis by auto
  qed
  moreover have "pre = js ''http://example.org'' \<and> rest = js ''1234.5678'' \<longrightarrow>
            pdfLink p = js ''http://example.org/pdf/1234.5678.pdf''"
    unfolding gen by (simp add: js_def)
  ultimately show ?thesis by blast
qed

theorem pdf_link_fallback_witness:
  "pdfLink (the (transformEntryToPaperSummary (JObj [(js ''id'', JStr (js ''http://example.org'' @ js ''/abs/'' @ js ''1234.5678''))])))
     = js ''http://example.org/pdf/1234.5678.pdf''"
proof -
  let ?e = "JObj [(js ''id'', JStr (js ''http://example.org'' @ js ''/abs/'' @ js ''1234.5678''))]"
  have acc: "transformEntryToPaperSummary ?e = Some (the (transformEntryToPaperSummary ?e))"
    by (simp add: transformEntryToPaperSummary_def js_def Let_def)
  have i: "get_prop ?e (js ''id'') = JStr (js ''http://example.org'' @ js ''/abs/'' @ js ''1234.5678'')"
    by simp
  have f: "\<not> sublist (js ''/abs/'') (js ''http://example.org'' @ js ''/abs'')"
    by (simp add: js_def sublist_code)
  have n: "\<forall>l\<in>set (as_array (get_prop ?e (js ''link''))).
           \<not> (get_prop l (js ''@_title'') = JStr (js ''pdf'') \<and>
              (\<exists>h. h \<noteq> [] \<and> get_prop l (js ''@_href'') = JStr h))"
    by (simp add: js_def)
  from pdf_link_fallback [OF acc i f n] show ?thesis by blast
qed

lemma replace_first_keeps_http:
  "prefix (js ''http://'') s \<Longrightarrow> prefix (js ''http://'') (replace_first s (js ''/abs/'') (js ''/pdf/''))"
  by (auto simp: prefix_def js_def)

lemma replace_first_keeps_https:
  "prefix (js ''https://'') s \<Longrightarrow> prefix (js ''https://'') (replace_first s (js ''/abs/'') (js ''/pdf/''))"
  by (auto simp: prefix_def js_def)

text \<open>
  C10. For an accepted entry whose id begins with \<open>http://\<close> or \<open>https://\<close>, the id
  contains \<open>/abs/\<close> and \<open>pdfLink\<close> is not empty. So an empty \<open>pdfLink\<close> occurs only for
  an accepted entry whose id begins with neither.
\<close>

theorem pdf_link_nonempty_for_http_id:
  assumes "transformEntryToPaperSummary e = Some p"
    and "get_prop e (js ''id'') = JStr s"
    and "prefix (js ''http://'') s \<or> prefix (js ''https://'') s"
  shows "sublist (js ''/abs/'') s \<and> pdfLink p \<noteq> []"
proof -
  let ?cand = "replace_first s (js ''/abs/'') (js ''/pdf/'') @ js ''.pdf''"
  from transform_SomeD [OF assms(1)] assms(2) have m: "match_abs s = Some (id' p)"
    by auto
  then have inc: "sublist (js ''/abs/'') s"
    using match_abs_includes by (simp add: includes_str_sublist)
  have ok: "prefix (js ''http://'') ?cand \<or> prefix (js ''https://'') ?cand"
    using assms(3) replace_first_keeps_http replace_first_keeps_https prefix_prefix by blast
  then have c: "?cand \<noteq> []"
    by (auto simp: js_def)
  from transform_SomeD [OF assms(1)] assms(2) obtain h0 where
    "pdfLink p = (if h0 = [] then (if prefix (js ''http://'') ?cand \<or> prefix (js ''https://'') ?cand
                                   then ?cand else []) else h0)"
    by auto
  with ok c have "pdfLink p \<noteq> []"
    by (cases "h0 = []") simp_all
  with inc show ?thesis by blast
qed

theorem pdf_link_nonempty_for_http_id_witness:
  "prefix (js ''http://'') (js ''http://arxiv.org/abs/2101.00001v1'') \<and>
   sublist (js ''/abs/'') (js ''http://arxiv.org/abs/2101.00001v1'') \<and>
   pdfLink (the (transformEntryToPaperSummary
      (JObj [(js ''id'', JStr (js ''http://arxiv.org/abs/2101.00001v1''))]))) \<noteq> []"
proof -
  let ?e = "JObj [(js ''id'', JStr (js ''http://arxiv.org/abs/2101.00001v1''))]"
  have acc: "transformEntryToPaperSummary ?e = Some (the (transformEntryToPaperSummary ?e))"
    by (simp add: transformEntryToPaperSummary_def js_def Let_def)
  have i: "get_prop ?e (js ''id'') = JStr (js ''http://arxiv.org/abs/2101.00001v1'')"
    by simp
  have h: "prefix (js ''http://'') (js ''http://arxiv.org/abs/2101.00001v1'')"
    by (simp add: js_def)
  from pdf_link_nonempty_for_http_id [OF acc i disjI1 [OF h]] h show ?thesis by blast
qed

section \<open>Authors, categories and the output invariants\<close>

lemma non_null_non_empty_concat:
  "non_null_non_empty (map f xs) =
     concat (map (\<lambda>x. case f x of Some n \<Rightarrow> (if n = [] then [] else [n]) | None \<Rightarrow> []) xs)"
  by (induction xs) (auto simp: non_null_non_empty_def split: option.splits)

lemma author_name_eq:
  "author_name a = (case get_prop a (js ''name'') of JStr n \<Rightarrow> Some (trim n) | _ \<Rightarrow> None)"
  by (cases a) (auto simp: author_name_def)

lemma category_term_eq:
  "category_term c = (case get_prop c (js ''@_term'') of JStr t \<Rightarrow> Some t | _ \<Rightarrow> None)"
  by (cases c) (auto simp: category_term_def)

lemma authors_concat:
  "non_null_non_empty (map author_name xs) =
     concat (map (\<lambda>a. case get_prop a (js ''name'') of
                          JStr n \<Rightarrow> (if trim n = [] then [] else [trim n]) | _ \<Rightarrow> []) xs)"
  unfolding non_null_non_empty_concat
  by (rule arg_cong [where f = concat], rule map_cong [OF refl])
     (simp add: author_name_eq split: jsval.splits)

lemma categories_concat:
  "non_null_non_empty (map category_term xs) =
     concat (map (\<lambda>c. case get_prop c (js ''@_term'') of
                          JStr t \<Rightarrow> (if t = [] then [] else [t]) | _ \<Rightarrow> []) xs)"
  unfolding non_null_non_empty_concat
  by (rule arg_cong [where f = concat], rule map_cong [OF refl])
     (simp add: category_term_eq split: jsval.splits)

lemma authors_of_field:
  "non_null_non_empty (map author_name (as_array v)) =
     concat (map (\<lambda>a. case get_prop a (js ''name'') of
                          JStr n \<Rightarrow> (if trim n = [] then [] else [trim n]) | _ \<Rightarrow> [])
              (case v of JArr xs \<Rightarrow> xs | JUndefined \<Rightarrow> [] | _ \<Rightarrow> [v]))"
  unfolding authors_concat by (cases v) simp_all

lemma categories_of_field:
  "non_null_non_empty (map category_term (as_array v)) =
     concat (map (\<lambda>c. case get_prop c (js ''@_term'') of
                          JStr t \<Rightarrow> (if t = [] then [] else [t]) | _ \<Rightarrow> [])
              (case v of JArr xs \<Rightarrow> xs | JUndefined \<Rightarrow> [] | _ \<Rightarrow> [v]))"
  unfolding categories_concat by (cases v) simp_all

text \<open>
  C7. The \<open>author\<close> field is read as a sequence: a sequence as it is, an absent field as
  the empty sequence, any other single value as the one-element sequence of it. Each
  element gives, in its place, its trimmed name when the name is a string that is not
  empty after trimming, and nothing otherwise. The \<open>category\<close> field is read as a sequence
  in the same way, and each element gives its term when the term is a non-empty string,
  and nothing otherwise. The output is the concatenation of these contributions, so the
  source order and the duplicates are kept.
\<close>

theorem authors_categories_mapped:
  assumes "transformEntryToPaperSummary e = Some p"
  shows "authors p =
           concat (map (\<lambda>a. case get_prop a (js ''name'') of
                               JStr n \<Rightarrow> (if trim n = [] then [] else [trim n]) | _ \<Rightarrow> [])
                    (case get_prop e (js ''author'') of
                       JArr xs \<Rightarrow> xs | JUndefined \<Rightarrow> [] | _ \<Rightarrow> [get_prop e (js ''author'')])) \<and>
         categories p =
           concat (map (\<lambda>c. case get_prop c (js ''@_term'') of
                               JStr t \<Rightarrow> (if t = [] then [] else [t]) | _ \<Rightarrow> [])
                    (case get_prop e (js ''category'') of
                       JArr xs \<Rightarrow> xs | JUndefined \<Rightarrow> [] | _ \<Rightarrow> [get_prop e (js ''category'')]))"
proof -
  from transform_SomeD [OF assms] have
    "authors p = non_null_non_empty (map author_name (as_array (get_prop e (js ''author''))))"
    "categories p = non_null_non_empty (map category_term (as_array (get_prop e (js ''category''))))"
    by auto
  then show ?thesis
    by (simp only: authors_of_field categories_of_field)
qed

theorem authors_categories_mapped_witness:
  "authors (the (transformEntryToPaperSummary (JObj [(js ''id'', JStr (js ''http://x/abs/9999.1111v2'')),
      (js ''author'', JArr [JObj [(js ''name'', JStr (js '' C ''))], JObj [(js ''name'', JStr (js ''  ''))],
          JObj [(js ''name'', JNum 7)], JObj [], JObj [(js ''name'', JStr (js ''A''))],
          JObj [(js ''name'', JStr (js ''C''))]]),
      (js ''category'', JObj [(js ''@_term'', JStr (js ''cs.AI''))])])))
     = [js ''C'', js ''A'', js ''C''] \<and>
   categories (the (transformEntryToPaperSummary (JObj [(js ''id'', JStr (js ''http://x/abs/9999.1111v2'')),
      (js ''author'', JArr [JObj [(js ''name'', JStr (js '' C ''))], JObj [(js ''name'', JStr (js ''  ''))],
          JObj [(js ''name'', JNum 7)], JObj [], JObj [(js ''name'', JStr (js ''A''))],
          JObj [(js ''name'', JStr (js ''C''))]]),
      (js ''category'', JObj [(js ''@_term'', JStr (js ''cs.AI''))])])))
     = [js ''cs.AI''] \<and>
   authors (the (transformEntryToPaperSummary (JObj [(js ''id'', JStr (js ''http://x/abs/9999.1111v2'')),
      (js ''author'', JObj [(js ''name'', JStr (js '' C ''))]),
      (js ''category'', JArr [JObj [(js ''@_term'', JStr (js ''cs.AI''))], JObj [(js ''@_term'', JStr [])],
          JObj [(js ''@_scheme'', JStr (js ''x''))], JObj [(js ''@_term'', JStr (js ''cs.AI''))]])])))
     = [js ''C''] \<and>
   categories (the (transformEntryToPaperSummary (JObj [(js ''id'', JStr (js ''http://x/abs/9999.1111v2'')),
      (js ''author'', JObj [(js ''name'', JStr (js '' C ''))]),
      (js ''category'', JArr [JObj [(js ''@_term'', JStr (js ''cs.AI''))], JObj [(js ''@_term'', JStr [])],
          JObj [(js ''@_scheme'', JStr (js ''x''))], JObj [(js ''@_term'', JStr (js ''cs.AI''))]])])))
     = [js ''cs.AI'', js ''cs.AI''] \<and>
   authors (the (transformEntryToPaperSummary (JObj [(js ''id'', JStr (js ''http://x/abs/9999.1111v2''))]))) = []"
proof -
  let ?e1 = "JObj [(js ''id'', JStr (js ''http://x/abs/9999.1111v2'')),
      (js ''author'', JArr [JObj [(js ''name'', JStr (js '' C ''))], JObj [(js ''name'', JStr (js ''  ''))],
          JObj [(js ''name'', JNum 7)], JObj [], JObj [(js ''name'', JStr (js ''A''))],
          JObj [(js ''name'', JStr (js ''C''))]]),
      (js ''category'', JObj [(js ''@_term'', JStr (js ''cs.AI''))])]"
  let ?e2 = "JObj [(js ''id'', JStr (js ''http://x/abs/9999.1111v2'')),
      (js ''author'', JObj [(js ''name'', JStr (js '' C ''))]),
      (js ''category'', JArr [JObj [(js ''@_term'', JStr (js ''cs.AI''))], JObj [(js ''@_term'', JStr [])],
          JObj [(js ''@_scheme'', JStr (js ''x''))], JObj [(js ''@_term'', JStr (js ''cs.AI''))]])]"
  let ?e3 = "JObj [(js ''id'', JStr (js ''http://x/abs/9999.1111v2''))]"
  have acc1: "transformEntryToPaperSummary ?e1 = Some (the (transformEntryToPaperSummary ?e1))"
    by (simp add: transformEntryToPaperSummary_def js_def Let_def)
  have acc2: "transformEntryToPaperSummary ?e2 = Some (the (transformEntryToPaperSummary ?e2))"
    by (simp add: transformEntryToPaperSummary_def js_def Let_def)
  have acc3: "transformEntryToPaperSummary ?e3 = Some (the (transformEntryToPaperSummary ?e3))"
    by (simp add: transformEntryToPaperSummary_def js_def Let_def)
  have 1: "authors (the (transformEntryToPaperSummary ?e1)) = [js ''C'', js ''A'', js ''C''] \<and>
           categories (the (transformEntryToPaperSummary ?e1)) = [js ''cs.AI'']"
    using authors_categories_mapped [OF acc1] by (simp add: js_def trim_def is_ws_def)
  have 2: "authors (the (transformEntryToPaperSummary ?e2)) = [js ''C''] \<and>
           categories (the (transformEntryToPaperSummary ?e2)) = [js ''cs.AI'', js ''cs.AI'']"
    using authors_categories_mapped [OF acc2] by (simp add: js_def trim_def is_ws_def)
  have 3: "authors (the (transformEntryToPaperSummary ?e3)) = []"
    using authors_categories_mapped [OF acc3] by (simp add: js_def)
  from 1 2 3 show ?thesis by blast
qed

lemma last_dropWhile: "dropWhile P xs \<noteq> [] \<Longrightarrow> last (dropWhile P xs) = last xs"
  by (induction xs) (auto split: if_splits)

lemma trim_outer: "trim s = [] \<or> (\<not> is_ws (hd (trim s)) \<and> \<not> is_ws (last (trim s)))"
proof (cases "trim s = []")
  case True
  then show ?thesis by simp
next
  case False
  define d where "d = dropWhile is_ws s"
  define r where "r = dropWhile is_ws (rev d)"
  have t: "trim s = rev r" by (simp add: trim_def d_def r_def)
  with False have r: "r \<noteq> []" by simp
  have d: "d \<noteq> []"
  proof
    assume "d = []"
    then have "r = []" by (simp add: r_def)
    with r show False by simp
  qed
  have "\<not> is_ws (hd r)" using r hd_dropWhile unfolding r_def by blast
  then have l: "\<not> is_ws (last (trim s))"
    using r by (simp add: t last_rev)
  have "last r = last (rev d)" using r unfolding r_def by (rule last_dropWhile)
  also have "\<dots> = hd d" using d by (simp add: last_rev)
  finally have "hd (trim s) = hd d" using r by (simp add: t hd_rev)
  moreover have "\<not> is_ws (hd d)" using d hd_dropWhile unfolding d_def by blast
  ultimately show ?thesis using l by simp
qed

lemma trim_id:
  assumes "t = [] \<or> (\<not> is_ws (hd t) \<and> \<not> is_ws (last t))"
  shows "trim t = t"
proof (cases "t = []")
  case True
  then show ?thesis by (simp add: trim_def)
next
  case False
  with assms have h: "\<not> is_ws (hd t)" and l: "\<not> is_ws (last t)" by auto
  from False h have "dropWhile is_ws t = t" by (cases t) auto
  moreover from False l have "dropWhile is_ws (rev t) = rev t"
    by (cases "rev t") (auto simp: last_rev hd_rev dest: arg_cong [where f = hd])
  ultimately show ?thesis by (simp add: trim_def)
qed

lemma trim_trim: "trim (trim s) = trim s"
  using trim_outer by (rule trim_id)

lemma trim_decomp:
  "\<exists>l r. s = l @ trim s @ r \<and> (\<forall>c\<in>set l. is_ws c) \<and> (\<forall>c\<in>set r. is_ws c)"
proof -
  define d where "d = dropWhile is_ws s"
  have "rev (dropWhile is_ws (rev d)) @ rev (takeWhile is_ws (rev d)) =
        rev (takeWhile is_ws (rev d) @ dropWhile is_ws (rev d))"
    by (simp only: rev_append)
  also have "\<dots> = d" by simp
  finally have "d = trim s @ rev (takeWhile is_ws (rev d))"
    by (simp add: trim_def d_def)
  moreover have "s = takeWhile is_ws s @ d"
    by (simp add: d_def)
  ultimately have "s = takeWhile is_ws s @ trim s @ rev (takeWhile is_ws (rev d))"
    by simp
  moreover have "\<forall>c\<in>set (takeWhile is_ws s). is_ws c"
    by (auto dest: set_takeWhileD)
  moreover have "\<forall>c\<in>set (rev (takeWhile is_ws (rev d))). is_ws c"
    by (auto dest: set_takeWhileD)
  ultimately show ?thesis by blast
qed

lemma authors_trimmed:
  "a \<in> set (non_null_non_empty (map author_name xs)) \<Longrightarrow> a \<noteq> [] \<and> trim a = a"
  by (auto simp: authors_concat trim_trim split: jsval.splits if_splits)

lemma categories_nonempty:
  "c \<in> set (non_null_non_empty (map category_term xs)) \<Longrightarrow> c \<noteq> []"
  by (auto simp: categories_concat split: jsval.splits if_splits)

text \<open>
  C9, as amended. In every summary the normalizer produces, the id is not empty, holds no
  letter \<open>v\<close>, and is a part of the raw id string that stands right after an occurrence of
  \<open>/abs/\<close> (so it is never the whole raw id); every author is non-empty and unchanged by
  trimming; every category is non-empty.
\<close>

theorem summary_invariants:
  assumes "transformEntryToPaperSummary e = Some p"
  shows "id' p \<noteq> [] \<and> 0x76 \<notin> set (id' p) \<and>
         (\<exists>pre rest. get_prop e (js ''id'') = JStr (pre @ js ''/abs/'' @ id' p @ rest)) \<and>
         get_prop e (js ''id'') \<noteq> JStr (id' p) \<and>
         (\<forall>a\<in>set (authors p). trim a \<noteq> [] \<and> trim a = a) \<and>
         (\<forall>c\<in>set (categories p). c \<noteq> [])"
proof -
  from transform_SomeD [OF assms] obtain s where
    s: "get_prop e (js ''id'') = JStr s" and m: "match_abs s = Some (id' p)"
    and au: "authors p = non_null_non_empty (map author_name (as_array (get_prop e (js ''author''))))"
    and ca: "categories p = non_null_non_empty (map category_term (as_array (get_prop e (js ''category''))))"
    by blast
  from match_abs_SomeD [OF m] obtain pre rest where
    i: "id' p \<noteq> []" "0x76 \<notin> set (id' p)" and d: "s = pre @ js ''/abs/'' @ id' p @ rest"
    by blast
  from d have "length s > length (id' p)" by (simp add: js_def)
  then have "s \<noteq> id' p" by auto
  moreover have "\<forall>a\<in>set (authors p). trim a \<noteq> [] \<and> trim a = a"
    unfolding au using authors_trimmed by auto
  moreover have "\<forall>c\<in>set (categories p). c \<noteq> []"
    unfolding ca using categories_nonempty by auto
  ultimately show ?thesis using s i d by auto
qed

theorem summary_invariants_witness:
  "id' (the (transformEntryToPaperSummary (JObj [(js ''id'', JStr (js ''http://x/abs/9999.1111v2'')),
      (js ''author'', JObj [(js ''name'', JStr (js '' C ''))]),
      (js ''category'', JObj [(js ''@_term'', JStr (js ''cs.AI''))])]))) \<noteq> [] \<and>
   get_prop (JObj [(js ''id'', JStr (js ''http://x/abs/9999.1111v2'')),
      (js ''author'', JObj [(js ''name'', JStr (js '' C ''))]),
      (js ''category'', JObj [(js ''@_term'', JStr (js ''cs.AI''))])]) (js ''id'') \<noteq>
     JStr (id' (the (transformEntryToPaperSummary (JObj [(js ''id'', JStr (js ''http://x/abs/9999.1111v2'')),
      (js ''author'', JObj [(js ''name'', JStr (js '' C ''))]),
      (js ''category'', JObj [(js ''@_term'', JStr (js ''cs.AI''))])]))))"
proof -
  let ?e = "JObj [(js ''id'', JStr (js ''http://x/abs/9999.1111v2'')),
      (js ''author'', JObj [(js ''name'', JStr (js '' C ''))]),
      (js ''category'', JObj [(js ''@_term'', JStr (js ''cs.AI''))])]"
  have acc: "transformEntryToPaperSummary ?e = Some (the (transformEntryToPaperSummary ?e))"
    by (simp add: transformEntryToPaperSummary_def js_def Let_def)
  from summary_invariants [OF acc] show ?thesis by blast
qed

text \<open>
  C9 as stated fails in its clause that the id is never a full URL: when the text after
  \<open>/abs/\<close> is itself a URL, the id of the summary is that URL.
\<close>

theorem summary_invariants_counterexample:
  "map_option id' (transformEntryToPaperSummary
      (JObj [(js ''id'', JStr (js ''http://arxiv.org/abs/http://example.org/paper''))]))
     = Some (js ''http://example.org/paper'') \<and>
   prefix (js ''http://'') (js ''http://example.org/paper'')"
  by (simp add: transformEntryToPaperSummary_def js_def Let_def)

section \<open>The feed root\<close>

text \<open>
  C8. The parsed value \<open>{ feed: {} }\<close>, and any root whose \<open>feed\<close> is an object without an
  \<open>entry\<close>, is answered with the empty sequence of summaries. A root that is neither an
  object nor an array (\<open>null\<close>, \<open>undefined\<close>, a boolean, a number, a string) is answered
  with the error of status 500, and never with an empty sequence.
\<close>

theorem feed_root_shapes:
  "respond_parsed (JObj [(js ''feed'', JObj [])]) = Json_papers [] \<and>
   ((\<exists>kvs. get_prop parsedData (js ''feed'') = JObj kvs \<and> get_prop (JObj kvs) (js ''entry'') = JUndefined)
      \<longrightarrow> respond_parsed parsedData = Json_papers []) \<and>
   ((\<forall>kvs. parsedData \<noteq> JObj kvs) \<and> (\<forall>xs. parsedData \<noteq> JArr xs) \<longrightarrow>
      respond_parsed parsedData = Json_error ''Failed to parse arXiv data. Unexpected format received.'' 500 \<and>
      respond_parsed parsedData \<noteq> Json_papers [])"
proof -
  have a: "respond_parsed (JObj [(js ''feed'', JObj [])]) = Json_papers []"
    by (simp add: respond_parsed_def isArxivRawData_def normalize_entries_def js_def)
  have b: "(\<exists>kvs. get_prop parsedData (js ''feed'') = JObj kvs \<and> get_prop (JObj kvs) (js ''entry'') = JUndefined)
      \<longrightarrow> respond_parsed parsedData = Json_papers []"
    by (cases parsedData) (auto simp: respond_parsed_def isArxivRawData_def normalize_entries_def)
  have c: "(\<forall>kvs. parsedData \<noteq> JObj kvs) \<and> (\<forall>xs. parsedData \<noteq> JArr xs) \<longrightarrow>
      respond_parsed parsedData = Json_error ''Failed to parse arXiv data. Unexpected format received.'' 500 \<and>
      respond_parsed parsedData \<noteq> Json_papers []"
    by (cases parsedData) (auto simp: respond_parsed_def isArxivRawData_def)
  from a b c show ?thesis by blast
qed

theorem feed_root_shapes_witness:
  "respond_parsed JNull = Json_error ''Failed to parse arXiv data. Unexpected format received.'' 500 \<and>
   respond_parsed (JStr (js ''not a feed'')) \<noteq> Json_papers [] \<and>
   respond_parsed (JObj [(js ''feed'', JObj [(js ''title'', JStr (js ''ArXiv Query''))])]) = Json_papers []"
proof -
  have g: "\<exists>kvs. get_prop (JObj [(js ''feed'', JObj [(js ''title'', JStr (js ''ArXiv Query''))])]) (js ''feed'') = JObj kvs \<and>
      get_prop (JObj kvs) (js ''entry'') = JUndefined"
    by (simp add: js_def)
  from feed_root_shapes [of JNull] feed_root_shapes [of "JStr (js ''not a feed'')"]
    feed_root_shapes [of "JObj [(js ''feed'', JObj [(js ''title'', JStr (js ''ArXiv Query''))])]"] g
  show ?thesis by simp
qed

section \<open>Title and summary\<close>

lemma concat_ws_runs: "concat (ws_runs s) = s"
  by (induction s rule: ws_runs.induct) simp_all

lemma replace_ws_runs_copy:
  "\<forall>x\<in>set xs. \<not> is_ws x \<Longrightarrow> replace_ws_runs (xs @ ys) = xs @ replace_ws_runs ys"
proof (induction xs)
  case Nil
  show ?case by simp
next
  case (Cons x xs)
  then have x: "\<not> is_ws x" and IH: "replace_ws_runs (xs @ ys) = xs @ replace_ws_runs ys"
    by simp_all
  show ?case
  proof (cases "xs @ ys")
    case Nil
    then show ?thesis by simp
  next
    case (Cons d rest)
    then have "replace_ws_runs (x # xs @ ys) = x # replace_ws_runs (xs @ ys)"
      using x by simp
    with IH show ?thesis by simp
  qed
qed

lemma collapse_runs_spec_Cons:
  "collapse_runs_spec (c # cs) =
     (if is_ws c
      then (if takeWhile is_ws cs \<noteq> [] then [0x20] else [c]) @ collapse_runs_spec (dropWhile is_ws cs)
      else (c # takeWhile (\<lambda>x. \<not> is_ws x) cs) @ collapse_runs_spec (dropWhile (\<lambda>x. \<not> is_ws x) cs))"
  by (cases "takeWhile is_ws cs") (simp_all add: collapse_runs_spec_def)

lemma replace_ws_runs_spec: "replace_ws_runs s = collapse_runs_spec s"
proof (induction s rule: ws_runs.induct)
  case 1
  show ?case by (simp add: collapse_runs_spec_def)
next
  case (2 c cs)
  show ?case
  proof (cases "is_ws c")
    case True
    note IH = "2.IH"(1) [OF True]
    show ?thesis
    proof (cases cs)
      case Nil
      with True collapse_runs_spec_Cons [of c cs] show ?thesis by (simp add: collapse_runs_spec_def)
    next
      case (Cons d cs')
      show ?thesis
      proof (cases "is_ws d")
        case d: True
        with True IH Cons collapse_runs_spec_Cons [of c cs] show ?thesis by simp
      next
        case d: False
        with True IH Cons collapse_runs_spec_Cons [of c cs] show ?thesis by simp
      qed
    qed
  next
    case False
    note IH = "2.IH"(2) [OF False]
    have "replace_ws_runs (c # cs) =
          replace_ws_runs ((c # takeWhile (\<lambda>x. \<not> is_ws x) cs) @ dropWhile (\<lambda>x. \<not> is_ws x) cs)"
      by simp
    also have "\<dots> = (c # takeWhile (\<lambda>x. \<not> is_ws x) cs) @ replace_ws_runs (dropWhile (\<lambda>x. \<not> is_ws x) cs)"
      using False by (intro replace_ws_runs_copy) (auto dest: set_takeWhileD)
    finally show ?thesis
      using False IH collapse_runs_spec_Cons [of c cs] by simp
  qed
qed

lemma dropWhile_keeps_last:
  assumes "xs \<noteq> []" and "\<not> P (last xs)"
  shows "dropWhile P xs \<noteq> [] \<and> last (dropWhile P xs) = last xs"
proof -
  have "last xs \<in> set xs" using assms(1) by simp
  with assms(2) have "dropWhile P xs \<noteq> []" by (auto simp: dropWhile_eq_Nil_conv)
  then show ?thesis by (simp add: last_dropWhile)
qed

lemma replace_ws_runs_last:
  "xs \<noteq> [] \<Longrightarrow> \<not> is_ws (last xs) \<Longrightarrow>
     replace_ws_runs xs \<noteq> [] \<and> last (replace_ws_runs xs) = last xs"
proof (induction xs rule: replace_ws_runs.induct)
  case 1
  then show ?case by simp
next
  case (2 c)
  then show ?case by simp
next
  case (3 c d cs)
  show ?case
  proof (cases "is_ws c \<and> is_ws d")
    case True
    with "3.prems" have cs: "cs \<noteq> []" by auto
    with "3.prems" have l: "\<not> is_ws (last cs)" by simp
    from dropWhile_keeps_last [where P = is_ws, OF cs l] have
      "dropWhile is_ws cs \<noteq> []" "last (dropWhile is_ws cs) = last cs" by simp_all
    with "3.IH"(1) [OF True] l cs True show ?thesis by simp
  next
    case False
    then have eq: "replace_ws_runs (c # d # cs) = c # replace_ws_runs (d # cs)"
      by (simp only: replace_ws_runs.simps if_False)
    from "3.prems" have "\<not> is_ws (last (d # cs))" by simp
    with "3.IH"(2) [OF False] have
      "replace_ws_runs (d # cs) \<noteq> []" "last (replace_ws_runs (d # cs)) = last (d # cs)"
      by simp_all
    then show ?thesis unfolding eq by simp
  qed
qed

lemma replace_ws_runs_hd:
  "xs \<noteq> [] \<Longrightarrow> \<not> is_ws (hd xs) \<Longrightarrow> hd (replace_ws_runs xs) = hd xs"
  by (induction xs rule: replace_ws_runs.induct) simp_all

lemma replace_ws_runs_outer:
  assumes "no_outer_ws t"
  shows "no_outer_ws (replace_ws_runs t)"
proof (cases "t = []")
  case True
  then show ?thesis by (simp add: no_outer_ws_def)
next
  case False
  with assms have h: "\<not> is_ws (hd t)" and l: "\<not> is_ws (last t)"
    by (auto simp: no_outer_ws_def)
  from replace_ws_runs_last [OF False l] replace_ws_runs_hd [OF False h] h l
  show ?thesis by (simp add: no_outer_ws_def)
qed

text \<open>
  C6. When the \<open>title\<close> of an accepted entry is a string, the title of the summary is that
  string trimmed, with every run of two or more white-space code units collapsed into one
  space, and it has no leading or trailing white space; otherwise it is the fixed
  placeholder. The same holds of the \<open>summary\<close>. Both placeholders are non-empty. Trimming
  removes a white-space prefix and a white-space suffix and leaves no white space at
  either end.
\<close>

theorem title_summary_cleaned:
  assumes "transformEntryToPaperSummary e = Some p"
  shows "(\<forall>s. get_prop e (js ''title'') = JStr s \<longrightarrow>
            title p = collapse_runs_spec (trim s) \<and> no_outer_ws (title p)) \<and>
         ((\<forall>s. get_prop e (js ''title'') \<noteq> JStr s) \<longrightarrow> title p = no_title) \<and>
         (\<forall>s. get_prop e (js ''summary'') = JStr s \<longrightarrow>
            summary p = collapse_runs_spec (trim s) \<and> no_outer_ws (summary p)) \<and>
         ((\<forall>s. get_prop e (js ''summary'') \<noteq> JStr s) \<longrightarrow> summary p = no_summary) \<and>
         no_title \<noteq> [] \<and> no_summary \<noteq> [] \<and>
         (\<forall>s. no_outer_ws (trim s) \<and>
              (\<exists>l r. s = l @ trim s @ r \<and> (\<forall>c\<in>set l. is_ws c) \<and> (\<forall>c\<in>set r. is_ws c)))"
proof -
  from transform_SomeD [OF assms] have
    t: "title p = string_or (get_prop e (js ''title'')) (\<lambda>s. replace_ws_runs (trim s)) no_title"
    and u: "summary p = string_or (get_prop e (js ''summary'')) (\<lambda>s. replace_ws_runs (trim s)) no_summary"
    by auto
  have o: "no_outer_ws (trim s)" for s
    using trim_outer [of s] by (simp add: no_outer_ws_def)
  have c: "replace_ws_runs (trim s) = collapse_runs_spec (trim s) \<and>
           no_outer_ws (collapse_runs_spec (trim s))" for s
    using replace_ws_runs_spec [of "trim s"] replace_ws_runs_outer [OF o, of s] by simp
  have 1: "\<forall>s. get_prop e (js ''title'') = JStr s \<longrightarrow>
            title p = collapse_runs_spec (trim s) \<and> no_outer_ws (title p)"
    using c by (auto simp: t string_or_def)
  have 2: "(\<forall>s. get_prop e (js ''title'') \<noteq> JStr s) \<longrightarrow> title p = no_title"
    by (cases "get_prop e (js ''title'')") (auto simp: t string_or_def)
  have 3: "\<forall>s. get_prop e (js ''summary'') = JStr s \<longrightarrow>
            summary p = collapse_runs_spec (trim s) \<and> no_outer_ws (summary p)"
    using c by (auto simp: u string_or_def)
  have 4: "(\<forall>s. get_prop e (js ''summary'') \<noteq> JStr s) \<longrightarrow> summary p = no_summary"
    by (cases "get_prop e (js ''summary'')") (auto simp: u string_or_def)
  have 5: "no_title \<noteq> [] \<and> no_summary \<noteq> []"
    by (simp add: no_title_def no_summary_def)
  from 1 2 3 4 5 o trim_decomp show ?thesis by blast
qed

theorem title_summary_cleaned_witness:
  "title (the (transformEntryToPaperSummary (JObj [(js ''id'', JStr (js ''http://x/abs/9999.1111v2'')),
      (js ''title'', JStr [0x20, 0x20, 0x41, 0x20, 0x0A, 0x20, 0x42, 0x09, 0x43, 0x20]),
      (js ''summary'', JNum 3)])))
     = [0x41, 0x20, 0x42, 0x09, 0x43] \<and>
   summary (the (transformEntryToPaperSummary (JObj [(js ''id'', JStr (js ''http://x/abs/9999.1111v2'')),
      (js ''title'', JStr [0x20, 0x20, 0x41, 0x20, 0x0A, 0x20, 0x42, 0x09, 0x43, 0x20]),
      (js ''summary'', JNum 3)])))
     = no_summary"
proof -
  let ?e = "JObj [(js ''id'', JStr (js ''http://x/abs/9999.1111v2'')),
      (js ''title'', JStr [0x20, 0x20, 0x41, 0x20, 0x0A, 0x20, 0x42, 0x09, 0x43, 0x20]),
      (js ''summary'', JNum 3)]"
  have acc: "transformEntryToPaperSummary ?e = Some (the (transformEntryToPaperSummary ?e))"
    by (simp add: transformEntryToPaperSummary_def js_def Let_def)
  have t: "get_prop ?e (js ''title'') = JStr [0x20, 0x20, 0x41, 0x20, 0x0A, 0x20, 0x42, 0x09, 0x43, 0x20]"
    by (simp add: js_def)
  have u: "\<forall>s. get_prop ?e (js ''summary'') \<noteq> JStr s"
    by (simp add: js_def)
  have v: "collapse_runs_spec (trim [0x20, 0x20, 0x41, 0x20, 0x0A, 0x20, 0x42, 0x09, 0x43, 0x20])
             = [0x41, 0x20, 0x42, 0x09, 0x43]"
    by (simp add: collapse_runs_spec_def trim_def is_ws_def)
  from title_summary_cleaned [OF acc] t u v show ?thesis by metis
qed

section \<open>One value or a sequence of values\<close>

lemma transform_cong:
  assumes "get_prop e1 (js ''id'') = get_prop e2 (js ''id'')"
    and "get_prop e1 (js ''title'') = get_prop e2 (js ''title'')"
    and "get_prop e1 (js ''summary'') = get_prop e2 (js ''summary'')"
    and "get_prop e1 (js ''published'') = get_prop e2 (js ''published'')"
    and "get_prop e1 (js ''updated'') = get_prop e2 (js ''updated'')"
    and "find is_pdf_link (as_array (get_prop e1 (js ''link''))) =
         find is_pdf_link (as_array (get_prop e2 (js ''link'')))"
    and "non_null_non_empty (map author_name (as_array (get_prop e1 (js ''author'')))) =
         non_null_non_empty (map author_name (as_array (get_prop e2 (js ''author''))))"
    and "non_null_non_empty (map category_term (as_array (get_prop e1 (js ''category'')))) =
         non_null_non_empty (map category_term (as_array (get_prop e2 (js ''category''))))"
  shows "transformEntryToPaperSummary e1 = transformEntryToPaperSummary e2"
proof (cases "\<exists>s. get_prop e1 (js ''id'') = JStr s")
  case True
  then obtain s where s1: "get_prop e1 (js ''id'') = JStr s" by blast
  with assms(1) have s2: "get_prop e2 (js ''id'') = JStr s" by simp
  have "truthy e1" "truthy e2"
    using s1 s2 by (auto intro: get_prop_JStr_truthy)
  then show ?thesis
    using s1 s2 assms(2-8) by (simp add: transformEntryToPaperSummary_def Let_def)
next
  case False
  with assms(1) have "\<forall>s. get_prop e1 (js ''id'') \<noteq> JStr s" "\<forall>s. get_prop e2 (js ''id'') \<noteq> JStr s"
    by auto
  then have "transformEntryToPaperSummary e1 = None" "transformEntryToPaperSummary e2 = None"
    by (simp_all add: transform_None_iff)
  then show ?thesis by simp
qed

lemma single_link: "\<forall>zs. v \<noteq> JArr zs \<Longrightarrow> find is_pdf_link (as_array v) = find is_pdf_link [v]"
  by (cases v) (auto simp: is_pdf_link_def)

lemma single_author:
  "\<forall>zs. v \<noteq> JArr zs \<Longrightarrow>
     non_null_non_empty (map author_name (as_array v)) = non_null_non_empty (map author_name [v])"
  by (cases v) (auto simp: non_null_non_empty_def author_name_def)

lemma single_category:
  "\<forall>zs. v \<noteq> JArr zs \<Longrightarrow>
     non_null_non_empty (map category_term (as_array v)) = non_null_non_empty (map category_term [v])"
  by (cases v) (auto simp: non_null_non_empty_def category_term_def)

lemma key_distinct:
  "js ''author'' \<noteq> js ''category''" "js ''author'' \<noteq> js ''link''" "js ''category'' \<noteq> js ''link''"
  "js ''id'' \<noteq> js ''author''" "js ''id'' \<noteq> js ''category''" "js ''id'' \<noteq> js ''link''"
  "js ''title'' \<noteq> js ''author''" "js ''title'' \<noteq> js ''category''" "js ''title'' \<noteq> js ''link''"
  "js ''summary'' \<noteq> js ''author''" "js ''summary'' \<noteq> js ''category''" "js ''summary'' \<noteq> js ''link''"
  "js ''published'' \<noteq> js ''author''" "js ''published'' \<noteq> js ''category''" "js ''published'' \<noteq> js ''link''"
  "js ''updated'' \<noteq> js ''author''" "js ''updated'' \<noteq> js ''category''" "js ''updated'' \<noteq> js ''link''"
  by (simp_all add: js_def)

lemma same_sequence:
  assumes "k = js ''author'' \<or> k = js ''category'' \<or> k = js ''link''"
    and "\<forall>k'. k' \<noteq> k \<longrightarrow> get_prop e1 k' = get_prop e2 k'"
    and "find is_pdf_link (as_array (get_prop e1 k)) = find is_pdf_link (as_array (get_prop e2 k))"
    and "non_null_non_empty (map author_name (as_array (get_prop e1 k))) =
         non_null_non_empty (map author_name (as_array (get_prop e2 k)))"
    and "non_null_non_empty (map category_term (as_array (get_prop e1 k))) =
         non_null_non_empty (map category_term (as_array (get_prop e2 k)))"
  shows "transformEntryToPaperSummary e1 = transformEntryToPaperSummary e2"
proof -
  have o: "k' \<noteq> k \<Longrightarrow> get_prop e1 k' = get_prop e2 k'" for k'
    using assms(2) by blast
  from assms(1) consider "k = js ''author''" | "k = js ''category''" | "k = js ''link''"
    by blast
  then show ?thesis
  proof cases
    case 1
    with assms(4) o key_distinct show ?thesis
      by (intro transform_cong) (simp_all add: key_distinct [symmetric])
  next
    case 2
    with assms(5) o key_distinct show ?thesis
      by (intro transform_cong) (simp_all add: key_distinct [symmetric])
  next
    case 3
    with assms(3) o key_distinct show ?thesis
      by (intro transform_cong) (simp_all add: key_distinct [symmetric])
  qed
qed

text \<open>
  C5. Let two entries agree on every field but \<open>k\<close>, one of \<open>author\<close>, \<open>category\<close> and
  \<open>link\<close>. If one holds a single value there (an object, or anything that is not an array)
  and the other the one-element sequence of that value, the normalizer gives the same
  result for both. If one lacks the field and the other holds the empty sequence, the
  results are again the same.
\<close>

theorem single_or_sequence:
  assumes "k = js ''author'' \<or> k = js ''category'' \<or> k = js ''link''"
    and "\<forall>k'. k' \<noteq> k \<longrightarrow> get_prop e1 k' = get_prop e2 k'"
  shows "((\<forall>zs. v \<noteq> JArr zs) \<and> get_prop e1 k = v \<and> get_prop e2 k = JArr [v] \<longrightarrow>
            transformEntryToPaperSummary e1 = transformEntryToPaperSummary e2) \<and>
         (get_prop e1 k = JUndefined \<and> get_prop e2 k = JArr [] \<longrightarrow>
            transformEntryToPaperSummary e1 = transformEntryToPaperSummary e2)"
proof -
  have "transformEntryToPaperSummary e1 = transformEntryToPaperSummary e2"
    if "\<forall>zs. v \<noteq> JArr zs" "get_prop e1 k = v" "get_prop e2 k = JArr [v]"
    using assms that single_link [of v] single_author [of v] single_category [of v]
    by (intro same_sequence [of k]) simp_all
  moreover have "transformEntryToPaperSummary e1 = transformEntryToPaperSummary e2"
    if "get_prop e1 k = JUndefined" "get_prop e2 k = JArr []"
    using assms that by (intro same_sequence [of k]) simp_all
  ultimately show ?thesis by blast
qed

theorem single_or_sequence_witness:
  "transformEntryToPaperSummary (JObj [(js ''id'', JStr (js ''http://x/abs/9999.1111v2'')),
      (js ''author'', JObj [(js ''name'', JStr (js '' C ''))])]) =
   transformEntryToPaperSummary (JObj [(js ''id'', JStr (js ''http://x/abs/9999.1111v2'')),
      (js ''author'', JArr [JObj [(js ''name'', JStr (js '' C ''))]])]) \<and>
   transformEntryToPaperSummary (JObj [(js ''id'', JStr (js ''http://x/abs/9999.1111v2''))]) =
   transformEntryToPaperSummary (JObj [(js ''id'', JStr (js ''http://x/abs/9999.1111v2'')),
      (js ''link'', JArr [])]) \<and>
   authors (the (transformEntryToPaperSummary (JObj [(js ''id'', JStr (js ''http://x/abs/9999.1111v2'')),
      (js ''author'', JObj [(js ''name'', JStr (js '' C ''))])]))) = [js ''C'']"
proof -
  let ?a = "JObj [(js ''name'', JStr (js '' C ''))]"
  let ?e1 = "JObj [(js ''id'', JStr (js ''http://x/abs/9999.1111v2'')), (js ''author'', ?a)]"
  let ?e2 = "JObj [(js ''id'', JStr (js ''http://x/abs/9999.1111v2'')), (js ''author'', JArr [?a])]"
  let ?e3 = "JObj [(js ''id'', JStr (js ''http://x/abs/9999.1111v2''))]"
  let ?e4 = "JObj [(js ''id'', JStr (js ''http://x/abs/9999.1111v2'')), (js ''link'', JArr [])]"
  have o: "\<forall>k'. k' \<noteq> js ''author'' \<longrightarrow> get_prop ?e1 k' = get_prop ?e2 k'"
    by simp
  have g: "(\<forall>zs. ?a \<noteq> JArr zs) \<and> get_prop ?e1 (js ''author'') = ?a \<and> get_prop ?e2 (js ''author'') = JArr [?a]"
    by (simp add: js_def)
  have o': "\<forall>k'. k' \<noteq> js ''link'' \<longrightarrow> get_prop ?e3 k' = get_prop ?e4 k'"
    by simp
  have g': "get_prop ?e3 (js ''link'') = JUndefined \<and> get_prop ?e4 (js ''link'') = JArr []"
    by (simp add: js_def)
  have a: "authors (the (transformEntryToPaperSummary ?e1)) = [js ''C'']"
    by (simp add: transformEntryToPaperSummary_def js_def Let_def author_name_def
        non_null_non_empty_def trim_def is_ws_def)
  from single_or_sequence [of "js ''author''" ?e1 ?e2 ?a, OF _ o]
    single_or_sequence [of "js ''link''" ?e3 ?e4, OF _ o'] g g' a
  show ?thesis by blast
qed

end
